theory Spec2Isabelle
  imports Complex_Main "HOL-Library.Sublist"
begin

section \<open>The DeepfakeDetector component (src/components/DeepfakeDetector.tsx)\<close>

text \<open>
  The component keeps its data in React state slots and changes them only through their
  setters. The model is a record of those slots, extended by what the handlers reach
  outside it: the timers they have started, the random number generator, the object-URL
  registry, what the component last rendered of its start control, and a history of the
  calls the handlers made, in the order they made them.
  The slot \<open>isPlaying\<close> and the handler \<open>togglePlayPause\<close> concern the playback of the
  preview only; no other handler reads or writes them, and they are left out.

  JavaScript numbers are IEEE doubles. They are modelled as rationals: all the numeric
  statements below are comparisons between sums and products of a handful of small
  constants, and the one exact value that matters, \<open>(n / n) * 100 = 100\<close>, is exact in
  doubles as well.
\<close>

subsection \<open>Data\<close>

type_synonym number = rat

type_synonym url = nat

record File =
  name :: string
  type :: string

record Details =
  faceAnalysis :: number
  temporalConsistency :: number
  artifactDetection :: number

record DetectionResult =
  isDeepfake :: bool
  confidence :: number
  processingTime :: number
  details :: Details

record Stage =
  stage_name :: string
  duration :: nat

text \<open>
  The field \<open>name\<close> of a stage is \<open>stage_name\<close> here, \<open>name\<close> being the field of a file.
  The calls a handler makes, as they appear in the history:
\<close>

datatype call =
    SetSelectedFile File
  | SetIsProcessing bool
  | SetProgress number
  | SetResult "DetectionResult option"
  | SetVideoUrl url
  | Toast string string string
  | SetTimeout nat
  | TimerResolved nat

text \<open>
  \<open>timers\<close> holds one entry for every invocation of \<open>simulateMLProcessing\<close> that is
  suspended at its \<open>await\<close>: the loop index \<open>i\<close> whose timer it waits for. \<open>rng\<close> is the
  stream of values that \<open>Math.random()\<close> is going to return, and \<open>urls\<close> counts the object
  URLs created so far. \<open>start_rendered\<close> and \<open>start_disabled\<close> are the start control as the
  component last rendered it: whether the button is there, and its \<open>disabled\<close> attribute.
\<close>

record State =
  selectedFile :: "File option"
  isProcessing :: bool
  progress :: number
  result :: "DetectionResult option"
  videoUrl :: "url option"
  timers :: "nat list"
  rng :: "nat \<Rightarrow> number"
  urls :: nat
  start_rendered :: bool
  start_disabled :: bool
  history :: "call list"

subsection \<open>State setters and the environment\<close>

definition called :: "call \<Rightarrow> State \<Rightarrow> State" where
  "called c s = s\<lparr>history := history s @ [c]\<rparr>"

definition setSelectedFile :: "File \<Rightarrow> State \<Rightarrow> State" where
  "setSelectedFile f s = called (SetSelectedFile f) (s\<lparr>selectedFile := Some f\<rparr>)"

definition setIsProcessing :: "bool \<Rightarrow> State \<Rightarrow> State" where
  "setIsProcessing b s = called (SetIsProcessing b) (s\<lparr>isProcessing := b\<rparr>)"

definition setProgress :: "number \<Rightarrow> State \<Rightarrow> State" where
  "setProgress v s = called (SetProgress v) (s\<lparr>progress := v\<rparr>)"

definition setResult :: "DetectionResult option \<Rightarrow> State \<Rightarrow> State" where
  "setResult r s = called (SetResult r) (s\<lparr>result := r\<rparr>)"

definition setVideoUrl :: "url \<Rightarrow> State \<Rightarrow> State" where
  "setVideoUrl u s = called (SetVideoUrl u) (s\<lparr>videoUrl := Some u\<rparr>)"

definition toast :: "string \<Rightarrow> string \<Rightarrow> string \<Rightarrow> State \<Rightarrow> State" where
  "toast title description variant s = called (Toast title description variant) s"

text \<open>\<open>URL.createObjectURL\<close> hands out a URL that was not handed out before.\<close>

definition createObjectURL :: "File \<Rightarrow> State \<Rightarrow> url \<times> State" where
  "createObjectURL f s = (urls s, s\<lparr>urls := Suc (urls s)\<rparr>)"

text \<open>\<open>Math.random()\<close> returns the next value of the stream.\<close>

definition random :: "State \<Rightarrow> number \<times> State" where
  "random s = (rng s 0, s\<lparr>rng := (\<lambda>k. rng s (Suc k))\<rparr>)"

subsection \<open>handleFileSelect\<close>

definition startsWith :: "string \<Rightarrow> string \<Rightarrow> bool" where
  "startsWith str p = prefix p str"

definition handleFileSelect :: "File \<Rightarrow> State \<Rightarrow> State" where
  "handleFileSelect file s =
     (if \<not> startsWith (type file) ''video/'' then
        toast ''Invalid File Type'' ''Please select a video file.'' ''destructive'' s
      else
        let s1 = setSelectedFile file s;
            s2 = setResult None s1;
            s3 = setProgress 0 s2;
            (u, s4) = createObjectURL file s3;
            s5 = setVideoUrl u s4
        in toast ''Video Loaded'' (''Ready to analyze: '' @ name file) ''default'' s5)"

subsection \<open>simulateMLProcessing\<close>

definition stages :: "Stage list" where
  "stages =
     [\<lparr>stage_name = ''Loading video frames'', duration = 800\<rparr>,
      \<lparr>stage_name = ''Face detection & extraction'', duration = 1200\<rparr>,
      \<lparr>stage_name = ''Temporal consistency analysis'', duration = 1000\<rparr>,
      \<lparr>stage_name = ''Artifact detection'', duration = 900\<rparr>,
      \<lparr>stage_name = ''Neural network inference'', duration = 1100\<rparr>,
      \<lparr>stage_name = ''Final classification'', duration = 600\<rparr>]"

text \<open>The value the loop passes to \<open>setProgress\<close> in iteration \<open>i\<close>.\<close>

definition percent :: "Stage list \<Rightarrow> nat \<Rightarrow> number" where
  "percent stgs i = (of_nat (i + 1) / of_nat (length stgs)) * 100"

text \<open>
  The object literal \<open>mockResult\<close>: its properties are evaluated in the order they are
  written, each \<open>Math.random()\<close> taking the next value of the stream.
\<close>

definition mockResult :: "State \<Rightarrow> DetectionResult \<times> State" where
  "mockResult s =
     (let (r1, s1) = random s;
          (r2, s2) = random s1;
          (r3, s3) = random s2;
          (r4, s4) = random s3;
          (r5, s5) = random s4
      in (\<lparr>isDeepfake = (r1 > 6 / 10),
           confidence = 75 / 100 + r2 * (24 / 100),
           processingTime = 46 / 10,
           details = \<lparr>faceAnalysis = 82 / 100 + r3 * (17 / 100),
                      temporalConsistency = 78 / 100 + r4 * (21 / 100),
                      artifactDetection = 73 / 100 + r5 * (26 / 100)\<rparr>\<rparr>, s5))"

text \<open>The part of the function after the loop.\<close>

definition finish :: "State \<Rightarrow> State" where
  "finish s =
     (let (res, s1) = mockResult s;
          s2 = setResult (Some res) s1;
          s3 = setIsProcessing False s2
      in toast ''Analysis Complete'' ''Detection completed in 4.6s''
           (if isDeepfake res then ''destructive'' else ''default'') s3)"

text \<open>
  One \<open>await new Promise(resolve => setTimeout(resolve, d))\<close> with nothing else happening
  while the function is suspended: the timer is started and, later, resolves.
\<close>

definition await_timeout :: "nat \<Rightarrow> State \<Rightarrow> State" where
  "await_timeout d s = called (TimerResolved d) (called (SetTimeout d) s)"

text \<open>
  The \<open>for\<close> loop, from index \<open>i\<close> on. The stage list is a parameter of the model so that the
  loop can be studied for any list; the component runs it on \<open>stages\<close>.
\<close>

function stage_loop :: "Stage list \<Rightarrow> nat \<Rightarrow> State \<Rightarrow> State" where
  "stage_loop stgs i s =
     (if i < length stgs
      then stage_loop stgs (i + 1)
             (setProgress (percent stgs i) (await_timeout (duration (stgs ! i)) s))
      else s)"
  by pat_completeness auto
termination
  by (relation "measure (\<lambda>(stgs, i, s). length stgs - i)") auto

declare stage_loop.simps [simp del]

definition processing :: "Stage list \<Rightarrow> State \<Rightarrow> State" where
  "processing stgs s = finish (stage_loop stgs 0 (setProgress 0 (setIsProcessing True s)))"

text \<open>A run of \<open>simulateMLProcessing\<close> from its call to its return, undisturbed.\<close>

definition simulateMLProcessing :: "State \<Rightarrow> State" where
  "simulateMLProcessing s = processing stages s"

subsection \<open>The component as a machine driven by events\<close>

text \<open>
  JavaScript runs one handler at a time, and \<open>simulateMLProcessing\<close> gives up control only
  at its \<open>await\<close>. Between two events the state does not change, so the component is a
  machine whose steps are the events: the user selects or drops a file, the user clicks
  the start control, the timer of a suspended invocation resolves, or the component
  renders again.

  \<open>begin_run\<close> is \<open>simulateMLProcessing\<close> from its call to its first \<open>await\<close>, and \<open>resume\<close> is
  the function from the moment the timer of the \<open>k\<close>-th suspended invocation resolves to
  its next \<open>await\<close> or to its return. An entry of \<open>timers\<close> is always an index of the stage
  list, since the loop suspends only inside its body.
\<close>

definition suspend :: "Stage list \<Rightarrow> nat \<Rightarrow> State \<Rightarrow> State" where
  "suspend stgs i s = called (SetTimeout (duration (stgs ! i))) s"

definition begin_run :: "Stage list \<Rightarrow> State \<Rightarrow> State" where
  "begin_run stgs s =
     (let s1 = setIsProcessing True s;
          s2 = setProgress 0 s1
      in if 0 < length stgs
         then (suspend stgs 0 s2)\<lparr>timers := timers s2 @ [0]\<rparr>
         else finish s2)"

definition resume :: "Stage list \<Rightarrow> nat \<Rightarrow> State \<Rightarrow> State" where
  "resume stgs k s =
     (let i = timers s ! k;
          s1 = called (TimerResolved (duration (stgs ! i))) s;
          s2 = setProgress (percent stgs i) s1
      in if i + 1 < length stgs
         then (suspend stgs (i + 1) s2)\<lparr>timers := (timers s2)[k := i + 1]\<rparr>
         else finish (s2\<lparr>timers := take k (timers s2) @ drop (Suc k) (timers s2)\<rparr>))"

text \<open>
  A render brings the start control up to date: the button is rendered when a file is
  selected, with \<open>disabled={isProcessing}\<close>.
\<close>

definition render :: "State \<Rightarrow> State" where
  "render s = s\<lparr>start_rendered := (selectedFile s \<noteq> None), start_disabled := isProcessing s\<rparr>"

text \<open>
  A click on the start control. \<open>simulateMLProcessing\<close> has no guard of its own: the one gate
  is the button as it was last rendered, so that between a call of \<open>setIsProcessing\<close> and
  the next render a click still reaches the function. The outcome is a value that could
  be an error; the source has no \<open>throw\<close> and no branch of the click is one.
\<close>

datatype error = AlreadyStartedError

definition start :: "Stage list \<Rightarrow> State \<Rightarrow> error + State" where
  "start stgs s =
     (if \<not> start_rendered s \<or> start_disabled s then Inr s else Inr (begin_run stgs s))"

definition clickStart :: "Stage list \<Rightarrow> State \<Rightarrow> State" where
  "clickStart stgs s = (case start stgs s of Inl e \<Rightarrow> s | Inr s' \<Rightarrow> s')"

datatype user_action = FileSelected File | StartClicked

datatype event = User user_action | TimerFired nat | Rendered

fun act :: "Stage list \<Rightarrow> user_action \<Rightarrow> State \<Rightarrow> State" where
  "act stgs (FileSelected f) s = handleFileSelect f s"
| "act stgs StartClicked s = clickStart stgs s"

fun step :: "Stage list \<Rightarrow> event \<Rightarrow> State \<Rightarrow> State" where
  "step stgs (User a) s = act stgs a s"
| "step stgs (TimerFired k) s = (if k < length (timers s) then resume stgs k s else s)"
| "step stgs Rendered s = render s"

fun exec :: "Stage list \<Rightarrow> event list \<Rightarrow> State \<Rightarrow> State" where
  "exec stgs [] s = s"
| "exec stgs (e # es) s = exec stgs es (step stgs e s)"

text \<open>
  The component as it is mounted: the initial values of its \<open>useState\<close> slots, and the
  first render, in which no file is selected and the start control is not there.
\<close>

definition mounted :: "(nat \<Rightarrow> number) \<Rightarrow> State" where
  "mounted g =
     \<lparr>selectedFile = None, isProcessing = False, progress = 0, result = None,
      videoUrl = None, timers = [], rng = g, urls = 0, start_rendered = False,
      start_disabled = False, history = []\<rparr>"

subsection \<open>Observations\<close>

text \<open>The calls a handler \<open>h\<close> makes when it runs in state \<open>s\<close>.\<close>

definition calls_of :: "(State \<Rightarrow> State) \<Rightarrow> State \<Rightarrow> call list" where
  "calls_of h s = drop (length (history s)) (history (h s))"

fun progress_reports :: "call list \<Rightarrow> number list" where
  "progress_reports [] = []"
| "progress_reports (SetProgress v # cs) = v # progress_reports cs"
| "progress_reports (c # cs) = progress_reports cs"

text \<open>The three calls of one iteration of the loop.\<close>

definition iteration :: "Stage list \<Rightarrow> nat \<Rightarrow> call list" where
  "iteration stgs i =
     [SetTimeout (duration (stgs ! i)), TimerResolved (duration (stgs ! i)),
      SetProgress (percent stgs i)]"

text \<open>
  The states of a run as the specification names them, read off the component's state.
  The component has no state that stands for a failed or a cancelled run.
\<close>

datatype RunState = Idle | Running | Succeeded | Failed | Cancelled

definition run_state :: "State \<Rightarrow> RunState" where
  "run_state s =
     (if isProcessing s then Running
      else if result s \<noteq> None then Succeeded
      else Idle)"

text \<open>
  Progress normalised by weight, in the specification's words: a hundred times the weight
  of the first \<open>k\<close> stages over the weight of all stages.
\<close>

definition weighted_percent :: "(Stage \<Rightarrow> number) \<Rightarrow> Stage list \<Rightarrow> nat \<Rightarrow> number" where
  "weighted_percent w stgs k =
     100 * sum_list (map w (take k stgs)) / sum_list (map w stgs)"

text \<open>The mean of the sub-scores of a result.\<close>

definition mean_subscores :: "DetectionResult \<Rightarrow> number" where
  "mean_subscores r =
     (faceAnalysis (details r) + temporalConsistency (details r)
        + artifactDetection (details r)) / 3"

text \<open>
  The result built from the stream \<open>g\<close> of random values: what \<open>mockResult\<close> returns when
  the generator is about to produce \<open>g 0\<close>, \<open>g 1\<close>, ...
\<close>

definition drawn :: "(nat \<Rightarrow> number) \<Rightarrow> DetectionResult" where
  "drawn g =
     \<lparr>isDeepfake = (g 0 > 6 / 10),
      confidence = 75 / 100 + g 1 * (24 / 100),
      processingTime = 46 / 10,
      details = \<lparr>faceAnalysis = 82 / 100 + g 2 * (17 / 100),
                 temporalConsistency = 78 / 100 + g 3 * (21 / 100),
                 artifactDetection = 73 / 100 + g 4 * (26 / 100)\<rparr>\<rparr>"

text \<open>
  The calls that \<open>simulateMLProcessing\<close> makes in the course of events: those of the steps
  that enter or resume it, and none of those of \<open>handleFileSelect\<close>.
\<close>

fun run_calls :: "Stage list \<Rightarrow> event list \<Rightarrow> State \<Rightarrow> call list" where
  "run_calls stgs [] s = []"
| "run_calls stgs (User (FileSelected f) # es) s =
     run_calls stgs es (step stgs (User (FileSelected f)) s)"
| "run_calls stgs (e # es) s = calls_of (step stgs e) s @ run_calls stgs es (step stgs e s)"

text \<open>The calls of the part of the function after the loop, \<open>g\<close> being the random stream.\<close>

definition finish_calls :: "(nat \<Rightarrow> number) \<Rightarrow> call list" where
  "finish_calls g =
     [SetResult (Some (drawn g)), SetIsProcessing False,
      Toast ''Analysis Complete'' ''Detection completed in 4.6s''
        (if isDeepfake (drawn g) then ''destructive'' else ''default'')]"

subsection \<open>Concrete inputs\<close>

definition clip :: File where
  "clip = \<lparr>name = ''clip.mp4'', type = ''video/mp4''\<rparr>"

definition other_clip :: File where
  "other_clip = \<lparr>name = ''other.webm'', type = ''video/webm''\<rparr>"

definition memo :: File where
  "memo = \<lparr>name = ''memo.txt'', type = ''text/plain''\<rparr>"

text \<open>Two random streams that differ in their first value only.\<close>

definition zeros :: "nat \<Rightarrow> number" where
  "zeros k = 0"

definition spike :: "nat \<Rightarrow> number" where
  "spike k = (if k = 0 then 7 / 10 else 0)"

text \<open>
  The component with \<open>clip\<close> selected and its analysis started, its second stage in flight,
  rendered after every event.
\<close>

definition analysing :: State where
  "analysing =
     exec stages
       [User (FileSelected clip), Rendered, User StartClicked, Rendered, TimerFired 0, Rendered]
       (mounted zeros)"

text \<open>The component after the analysis of \<open>clip\<close> has run to its end, rendered again.\<close>

definition analysed :: State where
  "analysed =
     exec stages
       [User (FileSelected clip), Rendered, User StartClicked, Rendered, TimerFired 0,
        TimerFired 0, TimerFired 0, TimerFired 0, TimerFired 0, TimerFired 0, Rendered]
       (mounted zeros)"

text \<open>
  A schedule in which the user selects any number of files while a stage is in flight: each
  element of the list holds the files selected before the next timer resolves.
\<close>

fun rounds :: "File list list \<Rightarrow> event list" where
  "rounds [] = []"
| "rounds (fs # fss) = map (\<lambda>f. User (FileSelected f)) fs @ TimerFired 0 # rounds fss"

section \<open>Basic facts about the handlers\<close>

subsection \<open>The loop\<close>

lemma stage_loop_unfold:
  "i < length stgs \<Longrightarrow> stage_loop stgs i s =
     stage_loop stgs (i + 1)
       (setProgress (percent stgs i) (await_timeout (duration (stgs ! i)) s))"
  by (subst stage_loop.simps) simp

lemma stage_loop_exit: "\<not> i < length stgs \<Longrightarrow> stage_loop stgs i s = s"
  by (subst stage_loop.simps) simp

lemma history_iteration:
  "history (setProgress (percent stgs i) (await_timeout (duration (stgs ! i)) s)) =
     history s @ iteration stgs i"
  by (simp add: iteration_def setProgress_def await_timeout_def called_def)

lemma stage_loop_history:
  "history (stage_loop stgs i s) = history s @ concat (map (iteration stgs) [i..<length stgs])"
proof (induction stgs i s rule: stage_loop.induct)
  case (1 stgs i s)
  show ?case
  proof (cases "i < length stgs")
    case True
    have "[i..<length stgs] = i # [i + 1..<length stgs]"
      using True by (simp add: upt_conv_Cons)
    then show ?thesis
      using True 1 by (simp add: stage_loop_unfold history_iteration)
  next
    case False
    then show ?thesis by (simp add: stage_loop_exit)
  qed
qed

lemma stage_loop_fields:
  "selectedFile (stage_loop stgs i s) = selectedFile s"
  "isProcessing (stage_loop stgs i s) = isProcessing s"
  "result (stage_loop stgs i s) = result s"
  "videoUrl (stage_loop stgs i s) = videoUrl s"
  "timers (stage_loop stgs i s) = timers s"
  "rng (stage_loop stgs i s) = rng s"
  "urls (stage_loop stgs i s) = urls s"
  by (induction stgs i s rule: stage_loop.induct;
      subst stage_loop.simps;
      simp add: setProgress_def await_timeout_def called_def)+

lemma stage_loop_progress:
  "progress (stage_loop stgs i s) = (if i < length stgs then 100 else progress s)"
proof (induction stgs i s rule: stage_loop.induct)
  case (1 stgs i s)
  show ?case
  proof (cases "i < length stgs")
    case True
    then show ?thesis
      using 1 by (subst stage_loop.simps)
        (auto simp add: setProgress_def await_timeout_def called_def percent_def not_less le_Suc_eq)
  next
    case False
    then show ?thesis by (subst stage_loop.simps) simp
  qed
qed

lemma progress_reports_append:
  "progress_reports (xs @ ys) = progress_reports xs @ progress_reports ys"
  by (induction xs rule: progress_reports.induct) simp_all

lemma progress_reports_iterations:
  "progress_reports (concat (map (iteration stgs) js)) = map (percent stgs) js"
  by (induction js) (simp_all add: iteration_def)

lemma calls_of_stage_loop:
  "calls_of (stage_loop stgs i) s = concat (map (iteration stgs) [i..<length stgs])"
  by (simp add: calls_of_def stage_loop_history)

lemma random_fields:
  "selectedFile (snd (random s)) = selectedFile s"
  "isProcessing (snd (random s)) = isProcessing s"
  "progress (snd (random s)) = progress s"
  "result (snd (random s)) = result s"
  "videoUrl (snd (random s)) = videoUrl s"
  "timers (snd (random s)) = timers s"
  "urls (snd (random s)) = urls s"
  "history (snd (random s)) = history s"
  "fst (random s) = rng s 0"
  "rng (snd (random s)) k = rng s (Suc k)"
  by (simp_all add: random_def)

lemma mockResult_drawn: "fst (mockResult s) = drawn (rng s)"
  by (simp add: mockResult_def random_def drawn_def Let_def split_def eval_nat_numeral)

lemma mockResult_fields:
  "selectedFile (snd (mockResult s)) = selectedFile s"
  "isProcessing (snd (mockResult s)) = isProcessing s"
  "progress (snd (mockResult s)) = progress s"
  "result (snd (mockResult s)) = result s"
  "videoUrl (snd (mockResult s)) = videoUrl s"
  "timers (snd (mockResult s)) = timers s"
  "urls (snd (mockResult s)) = urls s"
  "history (snd (mockResult s)) = history s"
  by (simp_all add: mockResult_def random_def Let_def split_def)

lemma finish_fields:
  "selectedFile (finish s) = selectedFile s"
  "isProcessing (finish s) = False"
  "progress (finish s) = progress s"
  "result (finish s) = Some (drawn (rng s))"
  "videoUrl (finish s) = videoUrl s"
  "timers (finish s) = timers s"
  "urls (finish s) = urls s"
  "history (finish s) = history s @
     [SetResult (Some (drawn (rng s))), SetIsProcessing False,
      Toast ''Analysis Complete'' ''Detection completed in 4.6s''
        (if isDeepfake (drawn (rng s)) then ''destructive'' else ''default'')]"
  by (simp_all add: finish_def split_def Let_def setResult_def setIsProcessing_def
        toast_def called_def mockResult_fields mockResult_drawn)

lemma calls_of_processing:
  "calls_of (processing stgs) s =
     [SetIsProcessing True, SetProgress 0] @ concat (map (iteration stgs) [0..<length stgs]) @
     [SetResult (Some (drawn (rng s))), SetIsProcessing False,
      Toast ''Analysis Complete'' ''Detection completed in 4.6s''
        (if isDeepfake (drawn (rng s)) then ''destructive'' else ''default'')]"
  by (simp add: calls_of_def processing_def finish_fields stage_loop_history stage_loop_fields
        setProgress_def setIsProcessing_def called_def)

lemma reports_of_processing:
  "progress_reports (calls_of (processing stgs) s) = 0 # map (percent stgs) [0..<length stgs]"
  by (simp add: calls_of_processing progress_reports_append progress_reports_iterations)

lemma result_of_processing: "result (processing stgs s) = Some (drawn (rng s))"
  by (simp add: processing_def finish_fields stage_loop_fields setProgress_def
        setIsProcessing_def called_def)

lemma percent_mono: "i \<le> j \<Longrightarrow> percent stgs i \<le> percent stgs j"
  by (simp add: percent_def divide_right_mono)

lemma percent_nonneg: "0 \<le> percent stgs i"
  by (simp add: percent_def)

lemma percent_last: "stgs \<noteq> [] \<Longrightarrow> percent stgs (length stgs - 1) = 100"
  by (cases stgs) (simp_all add: percent_def)

lemma percent_below: "i + 1 < length stgs \<Longrightarrow> percent stgs i < 100"
  by (simp add: percent_def divide_less_eq)

lemma sorted_percents: "sorted (map (percent stgs) [0..<n])"
  by (induction n) (auto simp: sorted_append percent_mono)

lemma sorted_reports: "sorted (0 # map (percent stgs) [0..<n])"
  by (auto simp: sorted_percents percent_nonneg)

subsection \<open>The stage list\<close>

text \<open>
  The array literal of the source is not empty, its durations are positive and its names
  are pairwise distinct.
\<close>

lemma stages_wellformed:
  "stages \<noteq> [] \<and> list_all (\<lambda>st. 0 < duration st) stages \<and> distinct (map stage_name stages)"
  by (simp add: stages_def)

subsection \<open>The handlers as steps of the machine\<close>

lemma handleFileSelect_keeps:
  "isProcessing (handleFileSelect f s) = isProcessing s"
  "timers (handleFileSelect f s) = timers s"
  "rng (handleFileSelect f s) = rng s"
  by (simp_all add: handleFileSelect_def Let_def split_def setSelectedFile_def setResult_def
        setProgress_def setVideoUrl_def toast_def called_def createObjectURL_def)

lemma handleFileSelect_accepts:
  assumes "startsWith (type f) ''video/''"
  shows "selectedFile (handleFileSelect f s) = Some f"
    and "result (handleFileSelect f s) = None"
    and "progress (handleFileSelect f s) = 0"
    and "videoUrl (handleFileSelect f s) = Some (urls s)"
  using assms
  by (simp_all add: handleFileSelect_def Let_def split_def setSelectedFile_def setResult_def
        setProgress_def setVideoUrl_def toast_def called_def createObjectURL_def)

lemma selections_keep:
  "timers (exec stgs (map (\<lambda>f. User (FileSelected f)) fs) s) = timers s"
  "rng (exec stgs (map (\<lambda>f. User (FileSelected f)) fs) s) = rng s"
  "isProcessing (exec stgs (map (\<lambda>f. User (FileSelected f)) fs) s) = isProcessing s"
  by (induction fs arbitrary: s; simp add: handleFileSelect_keeps)+

lemma resume_next:
  assumes "timers s = [i]" "i + 1 < length stgs"
  shows "timers (resume stgs 0 s) = [i + 1]"
    and "isProcessing (resume stgs 0 s) = isProcessing s"
    and "progress (resume stgs 0 s) = percent stgs i"
    and "result (resume stgs 0 s) = result s"
    and "selectedFile (resume stgs 0 s) = selectedFile s"
    and "history (resume stgs 0 s) = history s @
           [TimerResolved (duration (stgs ! i)), SetProgress (percent stgs i),
            SetTimeout (duration (stgs ! (i + 1)))]"
  using assms
  by (simp_all add: resume_def Let_def suspend_def setProgress_def called_def)

lemma resume_last:
  assumes "timers s = [i]" "\<not> i + 1 < length stgs"
  shows "timers (resume stgs 0 s) = []"
    and "isProcessing (resume stgs 0 s) = False"
    and "progress (resume stgs 0 s) = percent stgs i"
    and "result (resume stgs 0 s) = Some (drawn (rng s))"
    and "selectedFile (resume stgs 0 s) = selectedFile s"
  using assms
  by (simp_all add: resume_def Let_def finish_fields setProgress_def called_def)

lemma begin_run_fields:
  assumes "stgs \<noteq> []"
  shows "timers (begin_run stgs s) = timers s @ [0]"
    and "isProcessing (begin_run stgs s) = True"
    and "progress (begin_run stgs s) = 0"
    and "result (begin_run stgs s) = result s"
    and "selectedFile (begin_run stgs s) = selectedFile s"
    and "rng (begin_run stgs s) = rng s"
    and "history (begin_run stgs s) = history s @
           [SetIsProcessing True, SetProgress 0, SetTimeout (duration (stgs ! 0))]"
  using assms
  by (simp_all add: begin_run_def Let_def suspend_def setProgress_def setIsProcessing_def
        called_def)

lemma clickStart_enabled:
  "start_rendered s \<Longrightarrow> \<not> start_disabled s \<Longrightarrow> clickStart stgs s = begin_run stgs s"
  by (simp add: clickStart_def start_def)

lemma clickStart_disabled: "start_disabled s \<Longrightarrow> clickStart stgs s = s"
  by (simp add: clickStart_def start_def)

lemma render_fields:
  "start_rendered (render s) = (selectedFile s \<noteq> None)"
  "start_disabled (render s) = isProcessing s"
  "selectedFile (render s) = selectedFile s"
  "isProcessing (render s) = isProcessing s"
  "progress (render s) = progress s"
  "result (render s) = result s"
  "timers (render s) = timers s"
  "rng (render s) = rng s"
  "history (render s) = history s"
  by (simp_all add: render_def)

subsection \<open>A started run and the function run from its call to its return\<close>

text \<open>
  A click on the enabled start control followed by as many timer events as there are
  stages is the function \<open>simulateMLProcessing\<close> run from its call to its return.
\<close>

lemma exec_append: "exec stgs (xs @ ys) s = exec stgs ys (exec stgs xs s)"
  by (induction xs arbitrary: s) simp_all

lemma stage_loop_timers:
  "stage_loop stgs i (s\<lparr>timers := t\<rparr>) = (stage_loop stgs i s)\<lparr>timers := t\<rparr>"
proof (induction stgs i s rule: stage_loop.induct)
  case (1 stgs i s)
  show ?case
  proof (cases "i < length stgs")
    case True
    have "setProgress (percent stgs i) (await_timeout (duration (stgs ! i)) (s\<lparr>timers := t\<rparr>)) =
          (setProgress (percent stgs i) (await_timeout (duration (stgs ! i)) s))\<lparr>timers := t\<rparr>"
      by (simp add: setProgress_def await_timeout_def called_def)
    then show ?thesis
      using True 1 by (simp add: stage_loop_unfold)
  next
    case False
    then show ?thesis by (simp add: stage_loop_exit)
  qed
qed

lemma finish_timers: "finish (s\<lparr>timers := t\<rparr>) = (finish s)\<lparr>timers := t\<rparr>"
  by (simp add: finish_def mockResult_def random_def Let_def split_def setResult_def
        setIsProcessing_def toast_def called_def)

lemma timers_fire_as_loop:
  assumes "timers s = [i]" and "i < length stgs"
  shows "exec stgs (replicate (length stgs - i) (TimerFired 0)) s =
         (finish (stage_loop stgs (i + 1)
            (setProgress (percent stgs i) (called (TimerResolved (duration (stgs ! i))) s))))
         \<lparr>timers := []\<rparr>"
  using assms
proof (induction "length stgs - i" arbitrary: i s)
  case 0
  then show ?case by simp
next
  case (Suc m)
  let ?s2 = "setProgress (percent stgs i) (called (TimerResolved (duration (stgs ! i))) s)"
  have rep: "replicate (length stgs - i) (TimerFired 0) =
             TimerFired 0 # replicate (length stgs - (i + 1)) (TimerFired 0)"
    using Suc.hyps(2) by (metis Suc_eq_plus1 diff_diff_left replicate_Suc diff_Suc_1)
  show ?case
  proof (cases "i + 1 < length stgs")
    case True
    let ?s' = "resume stgs 0 s"
    have s': "?s' = (called (SetTimeout (duration (stgs ! (i + 1)))) ?s2)\<lparr>timers := [i + 1]\<rparr>"
      using Suc.prems True by (simp add: resume_def Let_def suspend_def setProgress_def called_def)
    have t': "timers ?s' = [i + 1]"
      using Suc.prems True by (simp add: resume_next)
    have m: "m = length stgs - (i + 1)" using Suc.hyps(2) by simp
    have "exec stgs (replicate (length stgs - i) (TimerFired 0)) s =
          exec stgs (replicate (length stgs - (i + 1)) (TimerFired 0)) ?s'"
      using Suc.prems by (simp add: rep)
    also have "\<dots> = (finish (stage_loop stgs (i + 1 + 1)
            (setProgress (percent stgs (i + 1))
               (called (TimerResolved (duration (stgs ! (i + 1)))) ?s'))))\<lparr>timers := []\<rparr>"
      by (rule Suc.hyps(1) [OF m t' True])
    also have "setProgress (percent stgs (i + 1))
               (called (TimerResolved (duration (stgs ! (i + 1)))) ?s') =
          (setProgress (percent stgs (i + 1)) (await_timeout (duration (stgs ! (i + 1))) ?s2))
            \<lparr>timers := [i + 1]\<rparr>"
      unfolding s' by (simp add: setProgress_def await_timeout_def called_def)
    finally have "exec stgs (replicate (length stgs - i) (TimerFired 0)) s =
          (finish (stage_loop stgs (i + 1 + 1)
             (setProgress (percent stgs (i + 1)) (await_timeout (duration (stgs ! (i + 1))) ?s2))))
          \<lparr>timers := []\<rparr>"
      by (simp add: stage_loop_timers finish_timers)
    then show ?thesis
      by (simp only: stage_loop_unfold [OF True, symmetric])
  next
    case False
    then have last: "length stgs - i = 1" "take 0 (timers s) @ drop (Suc 0) (timers s) = []"
      using Suc.prems by simp_all
    have "resume stgs 0 s = finish (?s2\<lparr>timers := []\<rparr>)"
      using Suc.prems False by (simp add: resume_def Let_def setProgress_def called_def)
    then show ?thesis
      using False Suc.prems last by (simp add: stage_loop_exit finish_timers)
  qed
qed

lemma click_and_timers_are_processing:
  assumes "start_rendered s" and "\<not> start_disabled s" and "timers s = []"
  shows "exec stgs (User StartClicked # replicate (length stgs) (TimerFired 0)) s =
         processing stgs s"
proof (cases "stgs = []")
  case True
  then show ?thesis
    using assms
    by (simp add: clickStart_enabled begin_run_def processing_def stage_loop_exit Let_def)
next
  case False
  let ?s0 = "setProgress 0 (setIsProcessing True s)"
  let ?s1 = "(suspend stgs 0 ?s0)\<lparr>timers := [0]\<rparr>"
  have n: "0 < length stgs" using False by simp
  have t0: "timers ?s0 = []"
    using assms by (simp add: setProgress_def setIsProcessing_def called_def)
  have start: "clickStart stgs s = ?s1"
    using assms n t0 by (simp add: clickStart_enabled begin_run_def Let_def)
  have t1: "timers ?s1 = [0]" by simp
  have "exec stgs (User StartClicked # replicate (length stgs) (TimerFired 0)) s =
        exec stgs (replicate (length stgs - 0) (TimerFired 0)) ?s1"
    by (simp add: start)
  also have "\<dots> = (finish (stage_loop stgs (0 + 1)
            (setProgress (percent stgs 0)
               (called (TimerResolved (duration (stgs ! 0))) ?s1))))\<lparr>timers := []\<rparr>"
    by (rule timers_fire_as_loop [OF t1 n])
  also have "setProgress (percent stgs 0) (called (TimerResolved (duration (stgs ! 0))) ?s1) =
        (setProgress (percent stgs 0) (await_timeout (duration (stgs ! 0)) ?s0))\<lparr>timers := [0]\<rparr>"
    by (simp add: setProgress_def await_timeout_def called_def suspend_def)
  finally have "exec stgs (User StartClicked # replicate (length stgs) (TimerFired 0)) s =
        (finish (stage_loop stgs (0 + 1)
           (setProgress (percent stgs 0) (await_timeout (duration (stgs ! 0)) ?s0))))
        \<lparr>timers := []\<rparr>"
    by (simp add: stage_loop_timers finish_timers)
  then have "exec stgs (User StartClicked # replicate (length stgs) (TimerFired 0)) s =
        (finish (stage_loop stgs 0 ?s0))\<lparr>timers := []\<rparr>"
    by (simp only: stage_loop_unfold [OF n, symmetric])
  moreover have "timers (finish (stage_loop stgs 0 ?s0)) = []"
    by (simp add: finish_fields stage_loop_fields t0)
  ultimately show ?thesis
    by (simp add: processing_def)
qed

text \<open>
  The files that the user selects while a run is in flight change nothing of what the run
  does: its calls are those of the function run from its call to its return.
\<close>

lemma calls_of_step_timer:
  "k < length (timers s) \<Longrightarrow>
   calls_of (step stgs (TimerFired k)) s = calls_of (resume stgs k) s"
  by (simp add: calls_of_def)

lemma calls_of_step_click:
  "calls_of (step stgs (User StartClicked)) s = calls_of (clickStart stgs) s"
  by (simp add: calls_of_def)

lemma iteration_hd_tl: "hd (iteration stgs i) # tl (iteration stgs i) = iteration stgs i"
  by (simp add: iteration_def)

lemma run_calls_append:
  "run_calls stgs (xs @ ys) s = run_calls stgs xs s @ run_calls stgs ys (exec stgs xs s)"
  by (induction stgs xs s rule: run_calls.induct) simp_all

lemma run_calls_of_selections:
  "run_calls stgs (map (\<lambda>f. User (FileSelected f)) fs) s = []"
  by (induction fs arbitrary: s) simp_all

lemma resume_next_rng:
  "timers s = [i] \<Longrightarrow> i + 1 < length stgs \<Longrightarrow> rng (resume stgs 0 s) = rng s"
  by (simp add: resume_def Let_def suspend_def setProgress_def called_def)

lemma resume_last_history:
  "timers s = [i] \<Longrightarrow> \<not> i + 1 < length stgs \<Longrightarrow>
   history (resume stgs 0 s) = history s @
     [TimerResolved (duration (stgs ! i)), SetProgress (percent stgs i)] @ finish_calls (rng s)"
  by (simp add: resume_def Let_def finish_fields setProgress_def called_def finish_calls_def)

lemma run_calls_rounds:
  assumes "timers s = [i]" and "i < length stgs" and "length fss = length stgs - i"
  shows "run_calls stgs (rounds fss) s =
           tl (iteration stgs i) @ concat (map (iteration stgs) [i + 1..<length stgs]) @
           finish_calls (rng s)"
  using assms
proof (induction fss arbitrary: i s)
  case Nil
  then show ?case by simp
next
  case (Cons fs fss)
  let ?s = "exec stgs (map (\<lambda>f. User (FileSelected f)) fs) s"
  have keep: "timers ?s = [i]" "rng ?s = rng s"
    using Cons.prems(1) by (simp_all add: selections_keep)
  have unfold: "run_calls stgs (rounds (fs # fss)) s =
      calls_of (resume stgs 0) ?s @ run_calls stgs (rounds fss) (resume stgs 0 ?s)"
    using keep
    by (simp add: run_calls_append run_calls_of_selections calls_of_step_timer)
  show ?case
  proof (cases "i + 1 < length stgs")
    case True
    have len: "length fss = length stgs - (i + 1)"
      using Cons.prems(3) by simp
    have upt: "[i + 1..<length stgs] = (i + 1) # [i + 1 + 1..<length stgs]"
      using True by (simp add: upt_conv_Cons)
    have "run_calls stgs (rounds fss) (resume stgs 0 ?s) =
            tl (iteration stgs (i + 1)) @
            concat (map (iteration stgs) [i + 1 + 1..<length stgs]) @ finish_calls (rng s)"
      using Cons.IH [of "resume stgs 0 ?s" "i + 1"] True keep len
      by (simp add: resume_next resume_next_rng)
    moreover have "calls_of (resume stgs 0) ?s =
        tl (iteration stgs i) @ [hd (iteration stgs (i + 1))]"
      using True keep by (simp add: calls_of_def resume_next iteration_def)
    ultimately show ?thesis
      unfolding unfold upt by (simp add: iteration_hd_tl)
  next
    case False
    then have last: "i + 1 = length stgs" using Cons.prems(2) by simp
    have "length stgs - i = 1" unfolding last [symmetric] by simp
    then have "fss = []" using Cons.prems(3) by simp
    moreover have "calls_of (resume stgs 0) ?s = tl (iteration stgs i) @ finish_calls (rng s)"
      using False keep by (simp add: calls_of_def resume_last_history iteration_def)
    ultimately show ?thesis
      unfolding unfold using last by simp
  qed
qed

lemma run_calls_undisturbed:
  assumes "start_rendered s" and "\<not> start_disabled s" and "timers s = []"
    and "length fss = length stgs"
  shows "run_calls stgs (User StartClicked # rounds fss) s = calls_of (processing stgs) s"
proof (cases "stgs = []")
  case True
  then have "fss = []" using assms(4) by simp
  moreover have "clickStart [] s = processing [] s"
    using assms
    by (simp add: clickStart_enabled begin_run_def processing_def stage_loop_exit Let_def)
  then have "calls_of (clickStart []) s = calls_of (processing []) s"
    by (simp add: calls_of_def)
  ultimately show ?thesis
    using True by (simp add: calls_of_step_click)
next
  case False
  have n: "0 < length stgs" using False by simp
  have start: "clickStart stgs s = begin_run stgs s"
    using assms by (simp add: clickStart_enabled)
  have b: "timers (begin_run stgs s) = [0]" "rng (begin_run stgs s) = rng s"
    using assms by (simp_all add: begin_run_fields [OF False])
  have "calls_of (clickStart stgs) s = [SetIsProcessing True, SetProgress 0, hd (iteration stgs 0)]"
    by (simp add: start calls_of_def begin_run_fields [OF False] iteration_def)
  moreover have "run_calls stgs (rounds fss) (begin_run stgs s) =
      tl (iteration stgs 0) @ concat (map (iteration stgs) [0 + 1..<length stgs]) @
      finish_calls (rng s)"
    using run_calls_rounds [OF b(1) n, of fss] assms(4) b(2) by simp
  moreover have "[0..<length stgs] = 0 # [0 + 1..<length stgs]"
    using n by (simp add: upt_conv_Cons)
  ultimately show ?thesis
    by (simp add: start calls_of_step_click calls_of_processing iteration_hd_tl finish_calls_def)
qed

text \<open>Unfolding the handlers, to evaluate the machine on given events.\<close>

lemmas handler_defs =
  handleFileSelect_def clickStart_def start_def render_def begin_run_def resume_def
  suspend_def finish_def mockResult_def random_def setSelectedFile_def setResult_def
  setProgress_def setVideoUrl_def setIsProcessing_def toast_def called_def
  createObjectURL_def startsWith_def Let_def split_def percent_def

lemma analysing_fields:
  "timers analysing = [1]" "isProcessing analysing" "selectedFile analysing = Some clip"
  "progress analysing = 50 / 3" "result analysing = None"
  "start_rendered analysing" "start_disabled analysing"
  by (simp_all add: analysing_def handler_defs stages_def mounted_def clip_def)

lemma analysed_fields:
  "timers analysed = []" "\<not> isProcessing analysed" "selectedFile analysed = Some clip"
  "progress analysed = 100" "result analysed = Some (drawn zeros)"
  "start_rendered analysed" "\<not> start_disabled analysed"
  by (simp_all add: analysed_def handler_defs stages_def mounted_def clip_def drawn_def zeros_def)

section \<open>The claims\<close>

subsection \<open>C1: the progress values of a run\<close>

text \<open>
  Claim C1. For every run of the pipeline, the sequence of reported progress percentages
  is non-decreasing and ends at exactly 100 if and only if the run succeeds; 100 is
  reached only on the progress update emitted for the final stage, never before and never
  skipped.

  The values are those that a run of \<open>simulateMLProcessing\<close> passes to \<open>setProgress\<close>, the
  reset to 0 at its start included; by lemma \<open>run_calls_undisturbed\<close> they are the same
  whatever files the user selects while the run is in flight. For every stage list that is not
  empty, that of the component among them, they are sorted, the last one is 100, all the
  others are below 100, and the run ends with its result published. The function has no
  path on which it fails or is cancelled, so both sides of the equivalence hold on every
  run.
\<close>

theorem progress_nondecreasing_ends_at_100:
  assumes "stgs \<noteq> []"
  shows "let ps = progress_reports (calls_of (processing stgs) s) in
           sorted ps \<and> last ps = 100 \<and> list_all (\<lambda>v. v < 100) (butlast ps) \<and>
           run_state (processing stgs s) = Succeeded \<and>
           (last ps = 100) = (run_state (processing stgs s) = Succeeded)"
proof -
  let ?n = "length stgs"
  have n: "0 < ?n" using assms by simp
  have ps: "progress_reports (calls_of (processing stgs) s) = 0 # map (percent stgs) [0..<?n]"
    by (rule reports_of_processing)
  have "[0..<?n] = [0..<?n - 1] @ [?n - 1]"
    using n by (metis Suc_diff_1 upt_Suc_append zero_le)
  then have pieces: "map (percent stgs) [0..<?n] = map (percent stgs) [0..<?n - 1] @ [100]"
    using percent_last [OF assms] by (metis list.simps(8,9) map_append)
  have ends: "last (0 # map (percent stgs) [0..<?n]) = 100"
    by (simp add: pieces)
  have "butlast (0 # map (percent stgs) [0..<?n]) = 0 # map (percent stgs) [0..<?n - 1]"
    by (simp add: pieces butlast_append)
  moreover have "list_all (\<lambda>v. v < 100) (map (percent stgs) [0..<?n - 1])"
    by (simp add: list_all_iff percent_below)
  ultimately have below: "list_all (\<lambda>v. v < 100) (butlast (0 # map (percent stgs) [0..<?n]))"
    by simp
  have succeeded: "run_state (processing stgs s) = Succeeded"
    by (simp add: run_state_def processing_def finish_fields)
  show ?thesis
    unfolding Let_def ps using sorted_reports ends below succeeded by simp
qed

text \<open>The component's own stage list, with the values written out.\<close>

theorem progress_nondecreasing_ends_at_100_witness:
  "stages \<noteq> [] \<and>
   (let ps = progress_reports (calls_of (processing stages) (mounted zeros)) in
      sorted ps \<and> last ps = 100 \<and> list_all (\<lambda>v. v < 100) (butlast ps) \<and>
      run_state (processing stages (mounted zeros)) = Succeeded \<and>
      (last ps = 100) = (run_state (processing stages (mounted zeros)) = Succeeded)) \<and>
   progress_reports (calls_of simulateMLProcessing (mounted zeros)) =
     [0, 50 / 3, 100 / 3, 50, 200 / 3, 250 / 3, 100]"
proof -
  have ne: "stages \<noteq> []" by (simp add: stages_def)
  have "progress_reports (calls_of simulateMLProcessing (mounted zeros)) =
     [0, 50 / 3, 100 / 3, 50, 200 / 3, 250 / 3, 100]"
    unfolding simulateMLProcessing_def reports_of_processing
    by (simp add: stages_def percent_def upt_conv_Cons)
  then show ?thesis
    using ne progress_nondecreasing_ends_at_100 [OF ne, of "mounted zeros"] by simp
qed

subsection \<open>C2: what normalises the progress\<close>

text \<open>
  Claim C2. For every pipeline and every completed stage, the reported progress percentage
  equals \<open>100 * completedWeight / totalWeight\<close>, where \<open>completedWeight\<close> is the sum of the
  weights of the stages completed so far and \<open>totalWeight\<close> is the sum of all stage weights
  (i.e., progress is normalized by stage weight, not by stage count).

  The one quantity a stage of the source carries is its duration. Weighing the stages by
  it, the first stage of the component's list (800 ms of 5600 ms) would bring the progress
  to \<open>100 / 7\<close>; the loop reports \<open>50 / 3\<close>, one sixth of a hundred.
\<close>

theorem progress_not_weighted_by_duration:
  "progress_reports (calls_of (stage_loop stages 0) (mounted zeros)) ! 0 = 50 / 3 \<and>
   weighted_percent (\<lambda>st. of_nat (duration st)) stages 1 = 100 / 7 \<and>
   progress_reports (calls_of (stage_loop stages 0) (mounted zeros)) ! 0 \<noteq>
     weighted_percent (\<lambda>st. of_nat (duration st)) stages 1"
proof -
  have "progress_reports (calls_of (stage_loop stages 0) (mounted zeros)) ! 0 = percent stages 0"
    unfolding calls_of_stage_loop progress_reports_iterations by (simp add: stages_def)
  then show ?thesis
    by (simp add: percent_def weighted_percent_def stages_def)
qed

text \<open>
  Claim C2, amended. After the stage of index \<open>i\<close> the loop reports
  \<open>100 * (i + 1) / n\<close>, where \<open>n\<close> is the number of stages: the progress is normalised by
  the stage count, which is the weight formula with every stage weighing one, whatever
  its duration.
\<close>

lemma unit_weights:
  "weighted_percent (\<lambda>st. 1) stgs k = 100 * of_nat (min k (length stgs)) / of_nat (length stgs)"
  by (simp add: weighted_percent_def sum_list_triv min.commute)

theorem progress_by_stage_count:
  assumes "i < length stgs"
  shows "progress_reports (calls_of (stage_loop stgs 0) s) ! i =
           100 * of_nat (i + 1) / of_nat (length stgs) \<and>
         progress_reports (calls_of (stage_loop stgs 0) s) ! i =
           weighted_percent (\<lambda>st. 1) stgs (i + 1)"
proof -
  have "progress_reports (calls_of (stage_loop stgs 0) s) ! i = percent stgs i"
    using assms by (simp add: calls_of_stage_loop progress_reports_iterations)
  moreover have "min (i + 1) (length stgs) = i + 1"
    using assms by simp
  ultimately show ?thesis
    by (simp only: unit_weights) (simp add: percent_def)
qed

theorem progress_by_stage_count_witness:
  "(1::nat) < length stages \<and>
   progress_reports (calls_of (stage_loop stages 0) (mounted zeros)) ! 1 =
     100 * of_nat (1 + 1) / of_nat (length stages) \<and>
   progress_reports (calls_of (stage_loop stages 0) (mounted zeros)) ! 1 =
     weighted_percent (\<lambda>st. 1) stages (1 + 1)"
proof -
  have len: "(1::nat) < length stages" by (simp add: stages_def)
  show ?thesis
    by (rule conjI [OF len progress_by_stage_count [OF len]])
qed

subsection \<open>C3: one stage after the other, one progress update for each\<close>

text \<open>
  Claim C3. Stage execution is strictly sequential and emits exactly one progress event
  per completed stage: for every run, stage \<open>i + 1\<close> never begins before stage \<open>i\<close>'s work
  unit has settled, and after each stage completes exactly one ProgressEvent is emitted,
  so a run that completes all \<open>n\<close> stages emits exactly \<open>n\<close> ProgressEvents in stage order.

  The calls of the loop are, for the stages in their order, the start of the stage's
  timer, the timer resolving, and one \<open>setProgress\<close>; nothing comes between them, and the
  loop makes as many progress updates as there are stages. (The reset
  \<open>setProgress(0)\<close> comes before the loop and belongs to no stage.) In the machine the
  timer of a stage is started only by the step in which the timer of the stage before it
  resolves, and lemma \<open>run_calls_undisturbed\<close> shows that a run makes these calls in this
  order whatever files the user selects between them.
\<close>

theorem stages_run_in_sequence:
  "calls_of (stage_loop stgs 0) s = concat (map (iteration stgs) [0..<length stgs]) \<and>
   length (progress_reports (calls_of (stage_loop stgs 0) s)) = length stgs"
  by (simp add: calls_of_stage_loop progress_reports_iterations)

text \<open>The loop on the component's own stage list.\<close>

theorem stages_run_in_sequence_witness:
  "calls_of (stage_loop stages 0) (mounted zeros) =
     [SetTimeout 800, TimerResolved 800, SetProgress (50 / 3),
      SetTimeout 1200, TimerResolved 1200, SetProgress (100 / 3),
      SetTimeout 1000, TimerResolved 1000, SetProgress 50,
      SetTimeout 900, TimerResolved 900, SetProgress (200 / 3),
      SetTimeout 1100, TimerResolved 1100, SetProgress (250 / 3),
      SetTimeout 600, TimerResolved 600, SetProgress 100] \<and>
   length (progress_reports (calls_of (stage_loop stages 0) (mounted zeros))) = 6"
  using stages_run_in_sequence [of stages "mounted zeros"]
  by (simp add: stages_def iteration_def percent_def upt_conv_Cons)

subsection \<open>C4: where the verdict comes from\<close>

text \<open>
  Claim C4. For every successful run under the default aggregation, the DetectionResult's
  classification is true exactly when the mean of all contributed sub-scores exceeds the
  configured threshold, and its confidence equals the mean of all contributed sub-scores
  (the decision is a deterministic function of the stages' contributed sub-scores).

  Two runs whose random streams differ in the first value only publish the same three
  sub-scores, with mean \<open>233 / 300\<close>. Their confidence is \<open>3 / 4\<close>, not that mean, and
  one run classifies the video as a deepfake while the other does not: the classification
  is no function of the sub-scores, whatever the threshold.
\<close>

theorem verdict_not_from_subscores:
  "result (simulateMLProcessing (mounted zeros)) =
     Some \<lparr>isDeepfake = False, confidence = 3 / 4, processingTime = 23 / 5,
           details = \<lparr>faceAnalysis = 41 / 50, temporalConsistency = 39 / 50,
                      artifactDetection = 73 / 100\<rparr>\<rparr> \<and>
   result (simulateMLProcessing (mounted spike)) =
     Some \<lparr>isDeepfake = True, confidence = 3 / 4, processingTime = 23 / 5,
           details = \<lparr>faceAnalysis = 41 / 50, temporalConsistency = 39 / 50,
                      artifactDetection = 73 / 100\<rparr>\<rparr> \<and>
   mean_subscores \<lparr>isDeepfake = False, confidence = 3 / 4, processingTime = 23 / 5,
           details = \<lparr>faceAnalysis = 41 / 50, temporalConsistency = 39 / 50,
                      artifactDetection = 73 / 100\<rparr>\<rparr> = 233 / 300 \<and>
   confidence (drawn zeros) \<noteq> mean_subscores (drawn zeros) \<and>
   details (drawn zeros) = details (drawn spike) \<and>
   isDeepfake (drawn zeros) \<noteq> isDeepfake (drawn spike)"
  by (simp add: simulateMLProcessing_def result_of_processing drawn_def mounted_def
        zeros_def spike_def mean_subscores_def)

text \<open>
  Claim C4, amended. Every run publishes a result whose classification is true exactly
  when a first random draw exceeds 0.6 and whose confidence is 0.75 plus 0.24 times a
  second draw; the three sub-scores come from three further draws, and neither the
  classification nor the confidence is computed from them.
\<close>

theorem verdict_from_random_draws:
  "\<exists>r. result (simulateMLProcessing s) = Some r \<and>
        isDeepfake r = (rng s 0 > 6 / 10) \<and>
        confidence r = 75 / 100 + rng s 1 * (24 / 100) \<and>
        faceAnalysis (details r) = 82 / 100 + rng s 2 * (17 / 100) \<and>
        temporalConsistency (details r) = 78 / 100 + rng s 3 * (21 / 100) \<and>
        artifactDetection (details r) = 73 / 100 + rng s 4 * (26 / 100)"
  by (simp add: simulateMLProcessing_def result_of_processing drawn_def)

subsection \<open>C5: starting a run that is not idle\<close>

text \<open>
  Claim C5. Calling start on a Run that is not in the Idle state fails with
  AlreadyStartedError; in particular, invoking the start operation while a run is already
  Running raises this error rather than beginning a second concurrent execution.

  After a run has succeeded and the component has rendered, the start control is enabled
  again: a click on it raises no error, it begins a new run, which resets the progress and
  starts the timer of the first stage. While a run is Running and the component has
  rendered, a click raises no error either and leaves the state as it is. And a second
  click that comes before the render that follows the first one finds the control still
  enabled: it raises no error and a second invocation is suspended beside the first.
\<close>

theorem restart_after_success:
  "run_state analysed = Succeeded \<and>
   start stages analysed \<noteq> Inl AlreadyStartedError \<and>
   run_state (clickStart stages analysed) = Running \<and>
   timers (clickStart stages analysed) = [0] \<and>
   progress (clickStart stages analysed) = 0 \<and>
   calls_of (clickStart stages) analysed =
     [SetIsProcessing True, SetProgress 0, SetTimeout 800] \<and>
   run_state analysing = Running \<and>
   start stages analysing = Inr analysing \<and>
   run_state (exec stages [User (FileSelected clip), Rendered, User StartClicked]
      (mounted zeros)) = Running \<and>
   start stages (exec stages [User (FileSelected clip), Rendered, User StartClicked]
      (mounted zeros)) \<noteq> Inl AlreadyStartedError \<and>
   timers (exec stages [User (FileSelected clip), Rendered, User StartClicked, User StartClicked]
      (mounted zeros)) = [0, 0]"
proof -
  have ne: "stages \<noteq> []" by (simp add: stages_def)
  have "clickStart stages analysed = begin_run stages analysed"
    by (simp add: clickStart_enabled analysed_fields)
  then have again: "run_state (clickStart stages analysed) = Running \<and>
      timers (clickStart stages analysed) = [0] \<and>
      progress (clickStart stages analysed) = 0 \<and>
      calls_of (clickStart stages) analysed =
        [SetIsProcessing True, SetProgress 0, SetTimeout 800]"
    by (simp add: run_state_def analysed_fields begin_run_fields [OF ne] calls_of_def)
      (simp add: stages_def)
  have running: "run_state analysing = Running \<and> start stages analysing = Inr analysing"
    by (simp add: run_state_def start_def analysing_fields)
  have twice: "run_state (exec stages [User (FileSelected clip), Rendered, User StartClicked]
      (mounted zeros)) = Running \<and>
   timers (exec stages [User (FileSelected clip), Rendered, User StartClicked, User StartClicked]
      (mounted zeros)) = [0, 0]"
    by (simp add: run_state_def handler_defs stages_def mounted_def clip_def)
  show ?thesis
    using again running twice
    by (simp add: run_state_def start_def analysed_fields)
qed

text \<open>
  Claim C5, amended. Calling start on a Run that is not in the Idle state never fails with
  AlreadyStartedError: start raises no error in any state. When the run has Succeeded and
  the component has rendered, start begins a new run. When the run is Running and the
  component has rendered since it began, the start control is disabled and invoking start
  changes nothing.
\<close>

theorem start_never_fails:
  "(\<exists>s'. start stgs s = Inr s') \<and>
   (run_state s = Running \<longrightarrow> start stgs (render s) = Inr (render s)) \<and>
   (run_state s = Succeeded \<and> selectedFile s \<noteq> None \<and> stgs \<noteq> [] \<longrightarrow>
      (\<exists>s'. start stgs (render s) = Inr s' \<and>
         run_state s' = Running \<and> progress s' = 0 \<and> timers s' = timers s @ [0] \<and>
         calls_of (clickStart stgs) (render s) =
           [SetIsProcessing True, SetProgress 0, SetTimeout (duration (stgs ! 0))]))"
proof -
  have "\<exists>s'. start stgs s = Inr s'"
    by (simp add: start_def)
  moreover have "run_state s = Running \<longrightarrow> start stgs (render s) = Inr (render s)"
    by (simp add: run_state_def start_def render_fields split: if_splits)
  moreover have "run_state s = Succeeded \<and> selectedFile s \<noteq> None \<and> stgs \<noteq> [] \<longrightarrow>
      (\<exists>s'. start stgs (render s) = Inr s' \<and>
         run_state s' = Running \<and> progress s' = 0 \<and> timers s' = timers s @ [0] \<and>
         calls_of (clickStart stgs) (render s) =
           [SetIsProcessing True, SetProgress 0, SetTimeout (duration (stgs ! 0))])"
  proof
    assume h: "run_state s = Succeeded \<and> selectedFile s \<noteq> None \<and> stgs \<noteq> []"
    then have idle: "\<not> isProcessing s"
      by (simp add: run_state_def split: if_splits)
    have ne: "stgs \<noteq> []" using h by simp
    have enabled: "start_rendered (render s)" "\<not> start_disabled (render s)"
      using h idle by (simp_all add: render_fields)
    have begun: "start stgs (render s) = Inr (begin_run stgs (render s))"
      using enabled by (simp add: start_def)
    have "run_state (begin_run stgs (render s)) = Running \<and>
          progress (begin_run stgs (render s)) = 0 \<and>
          timers (begin_run stgs (render s)) = timers s @ [0] \<and>
          calls_of (clickStart stgs) (render s) =
            [SetIsProcessing True, SetProgress 0, SetTimeout (duration (stgs ! 0))]"
      by (simp add: run_state_def begin_run_fields [OF ne] render_fields calls_of_def
            clickStart_enabled [OF enabled])
    then show "\<exists>s'. start stgs (render s) = Inr s' \<and>
         run_state s' = Running \<and> progress s' = 0 \<and> timers s' = timers s @ [0] \<and>
         calls_of (clickStart stgs) (render s) =
           [SetIsProcessing True, SetProgress 0, SetTimeout (duration (stgs ! 0))]"
      using begun by blast
  qed
  ultimately show ?thesis by blast
qed

theorem start_never_fails_witness:
  "run_state analysing = Running \<and>
   start stages (render analysing) = Inr (render analysing) \<and>
   run_state analysed = Succeeded \<and> selectedFile analysed \<noteq> None \<and> stages \<noteq> [] \<and>
   (\<exists>s'. start stages (render analysed) = Inr s' \<and>
      run_state s' = Running \<and> progress s' = 0 \<and> timers s' = timers analysed @ [0] \<and>
      calls_of (clickStart stages) (render analysed) =
        [SetIsProcessing True, SetProgress 0, SetTimeout (duration (stages ! 0))]) \<and>
   (\<exists>s'. start stages analysed = Inr s')"
proof -
  have a: "run_state analysing = Running"
    by (simp add: run_state_def analysing_fields)
  have b: "run_state analysed = Succeeded \<and> selectedFile analysed \<noteq> None \<and> stages \<noteq> []"
    by (simp add: run_state_def analysed_fields stages_def)
  show ?thesis
    using a b start_never_fails [of stages analysing] start_never_fails [of stages analysed]
    by blast
qed

subsection \<open>C8: the bounds of a result\<close>

text \<open>
  Claim C8. Every DetectionResult produced by a successful run satisfies the stated
  numeric bounds: confidence lies in \<open>[0,1]\<close>, every sub-score in the result's sub-score
  mapping lies in \<open>[0,1]\<close>, and elapsedTime is a number greater than or equal to 0.

  \<open>Math.random()\<close> returns a value that is at least 0 and below 1; that is the hypothesis
  on the stream.
\<close>

theorem result_within_bounds:
  assumes "\<forall>k. 0 \<le> rng s k \<and> rng s k < 1"
  shows "\<exists>r. result (simulateMLProcessing s) = Some r \<and>
           0 \<le> confidence r \<and> confidence r \<le> 1 \<and>
           0 \<le> faceAnalysis (details r) \<and> faceAnalysis (details r) \<le> 1 \<and>
           0 \<le> temporalConsistency (details r) \<and> temporalConsistency (details r) \<le> 1 \<and>
           0 \<le> artifactDetection (details r) \<and> artifactDetection (details r) \<le> 1 \<and>
           0 \<le> processingTime r"
proof -
  have r: "0 \<le> rng s k" "rng s k < 1" for k using assms by auto
  show ?thesis
    using r [of 1] r [of 2] r [of 3] r [of 4]
    by (simp add: simulateMLProcessing_def result_of_processing drawn_def)
qed

theorem result_within_bounds_witness:
  "(\<forall>k. 0 \<le> rng (mounted spike) k \<and> rng (mounted spike) k < 1) \<and>
   (\<exists>r. result (simulateMLProcessing (mounted spike)) = Some r \<and>
      0 \<le> confidence r \<and> confidence r \<le> 1 \<and>
      0 \<le> faceAnalysis (details r) \<and> faceAnalysis (details r) \<le> 1 \<and>
      0 \<le> temporalConsistency (details r) \<and> temporalConsistency (details r) \<le> 1 \<and>
      0 \<le> artifactDetection (details r) \<and> artifactDetection (details r) \<le> 1 \<and>
      0 \<le> processingTime r)"
proof -
  have h: "\<forall>k. 0 \<le> rng (mounted spike) k \<and> rng (mounted spike) k < 1"
    by (simp add: mounted_def spike_def)
  show ?thesis
    by (rule conjI [OF h result_within_bounds [OF h]])
qed

subsection \<open>C9: a new file while a run is in flight\<close>

text \<open>
  Claim C9. Selecting a new input file clears the previous run's outputs: after
  \<open>handleFileSelect\<close> accepts a file, the stored result is null and the progress value is
  0, so no DetectionResult from an earlier run is ever observable alongside a newly
  selected input.

  Right after the handler the result is null and the progress is 0 (lemma
  \<open>handleFileSelect_accepts\<close>). But the handler does not stop a run that is in flight, and
  nothing keeps the user from selecting a file during a run. The user selects \<open>clip\<close>,
  starts the analysis and, with the third stage in flight, selects \<open>other_clip\<close>: the result
  and the progress are cleared, the next timer brings the progress to 50, and when the last
  timer has resolved the result of the run that was started for \<open>clip\<close> is stored beside
  the selected file \<open>other_clip\<close>, for which no analysis was ever started. (The render
  that shows the start control comes before the click; the later renders are left out, as
  they change nothing but what the start control shows, and no later event is a click.)
\<close>

theorem result_of_earlier_run_with_new_file:
  "selectedFile (exec stages
      [User (FileSelected clip), Rendered, User StartClicked, TimerFired 0, TimerFired 0,
       User (FileSelected other_clip)] (mounted zeros)) = Some other_clip \<and>
   result (exec stages
      [User (FileSelected clip), Rendered, User StartClicked, TimerFired 0, TimerFired 0,
       User (FileSelected other_clip)] (mounted zeros)) = None \<and>
   progress (exec stages
      [User (FileSelected clip), Rendered, User StartClicked, TimerFired 0, TimerFired 0,
       User (FileSelected other_clip)] (mounted zeros)) = 0 \<and>
   progress (exec stages
      [User (FileSelected clip), Rendered, User StartClicked, TimerFired 0, TimerFired 0,
       User (FileSelected other_clip), TimerFired 0] (mounted zeros)) = 50 \<and>
   selectedFile (exec stages
      [User (FileSelected clip), Rendered, User StartClicked, TimerFired 0, TimerFired 0,
       User (FileSelected other_clip), TimerFired 0, TimerFired 0, TimerFired 0, TimerFired 0]
      (mounted zeros)) = Some other_clip \<and>
   result (exec stages
      [User (FileSelected clip), Rendered, User StartClicked, TimerFired 0, TimerFired 0,
       User (FileSelected other_clip), TimerFired 0, TimerFired 0, TimerFired 0, TimerFired 0]
      (mounted zeros)) =
     Some \<lparr>isDeepfake = False, confidence = 3 / 4, processingTime = 23 / 5,
           details = \<lparr>faceAnalysis = 41 / 50, temporalConsistency = 39 / 50,
                      artifactDetection = 73 / 100\<rparr>\<rparr>"
  by (simp add: handler_defs stages_def mounted_def clip_def other_clip_def zeros_def)

subsection \<open>C10: a file that is not a video\<close>

text \<open>
  Claim C10. Rejecting an invalid input is atomic: when \<open>handleFileSelect\<close> is given a file
  whose media type does not start with \<open>video/\<close>, it returns without modifying any
  state --- \<open>selectedFile\<close>, \<open>result\<close>, \<open>progress\<close>, and \<open>videoUrl\<close> all keep their prior
  values.

  The handler's one effect is the toast that reports the rejection.
\<close>

theorem rejected_file_changes_nothing:
  assumes "\<not> startsWith (type file) ''video/''"
  shows "selectedFile (handleFileSelect file s) = selectedFile s \<and>
         result (handleFileSelect file s) = result s \<and>
         progress (handleFileSelect file s) = progress s \<and>
         videoUrl (handleFileSelect file s) = videoUrl s \<and>
         handleFileSelect file s =
           s\<lparr>history := history s @
                [Toast ''Invalid File Type'' ''Please select a video file.'' ''destructive'']\<rparr>"
  using assms by (simp add: handleFileSelect_def toast_def called_def)

theorem rejected_file_changes_nothing_witness:
  "\<not> startsWith (type memo) ''video/'' \<and>
   selectedFile (handleFileSelect memo (simulateMLProcessing (handleFileSelect clip (mounted zeros)))) =
     Some clip \<and>
   result (handleFileSelect memo (simulateMLProcessing (handleFileSelect clip (mounted zeros)))) =
     Some (drawn zeros) \<and>
   progress (handleFileSelect memo (simulateMLProcessing (handleFileSelect clip (mounted zeros)))) =
     100 \<and>
   videoUrl (handleFileSelect memo (simulateMLProcessing (handleFileSelect clip (mounted zeros)))) =
     Some 0"
proof -
  let ?s = "simulateMLProcessing (handleFileSelect clip (mounted zeros))"
  have h: "\<not> startsWith (type memo) ''video/''"
    by (simp add: startsWith_def memo_def)
  have v: "startsWith (type clip) ''video/''"
    by (simp add: startsWith_def clip_def)
  have six: "0 < length stages" by (simp add: stages_def)
  have "selectedFile ?s = Some clip" "result ?s = Some (drawn zeros)" "progress ?s = 100"
    "videoUrl ?s = Some 0"
    using v six
    by (simp_all add: simulateMLProcessing_def processing_def finish_fields stage_loop_fields
          stage_loop_progress handleFileSelect_def setSelectedFile_def setResult_def
          setProgress_def setVideoUrl_def setIsProcessing_def toast_def called_def
          createObjectURL_def mounted_def)
  then show ?thesis
    using h rejected_file_changes_nothing [OF h, of ?s] by simp
qed

end
